theory Spec2Isabelle
  imports Main "HOL-Library.Word"
begin

unbundle bit_operations_syntax

section \<open>A model of CHTTPClient (HTTP/HTTPClient.cpp and its header)\<close>

text \<open>
  The client class wraps one libcurl easy handle. The model follows the C++ member
  functions one by one. What the code does to the world outside the object (the logger
  callback, the engine, the file system) is written into an explicit state that each
  function takes and returns.
\<close>

subsection \<open>Machine types\<close>

type_synonym size_t = "64 word"
type_synonym long = "64 word"
type_synonym cint = "32 word"

text \<open>
  \<open>enum SettingsFlag\<close> has the enumerators \<open>0x00 .. 0xFF\<close>; its values are the eight-bit
  masks (\<open>GetSettingsFlags\<close> returns them as \<open>unsigned char\<close>).
\<close>

type_synonym SettingsFlag = "8 word"

definition NO_FLAGS :: SettingsFlag where "NO_FLAGS = 0x00"
definition ENABLE_LOG :: SettingsFlag where "ENABLE_LOG = 0x01"
definition VERIFY_PEER :: SettingsFlag where "VERIFY_PEER = 0x02"
definition VERIFY_HOST :: SettingsFlag where "VERIFY_HOST = 0x04"
definition ALL_FLAGS :: SettingsFlag where "ALL_FLAGS = 0xFF"

subsection \<open>Characters and strings of the C library\<close>

text \<open>
  \<open>::toupper\<close>, \<open>::tolower\<close> and \<open>isspace\<close> in the "C" locale. A \<open>std::string\<close> is a list of
  bytes.
\<close>

definition toupper :: "char \<Rightarrow> char" where
  "toupper c =
     (let n = (of_char c :: nat) in if 97 \<le> n \<and> n \<le> 122 then char_of (n - 32) else c)"

definition tolower :: "char \<Rightarrow> char" where
  "tolower c =
     (let n = (of_char c :: nat) in if 65 \<le> n \<and> n \<le> 90 then char_of (n + 32) else c)"

definition isspace :: "char \<Rightarrow> bool" where
  "isspace c = (let n = (of_char c :: nat) in n = 32 \<or> (9 \<le> n \<and> n \<le> 13))"

text \<open>
  \<open>std::find_if(first, last, [](char c) {return !isspace(c);})\<close>, as the distance of the
  returned iterator from \<open>first\<close> (the length of the range when nothing is found).
\<close>

fun find_if_not_space :: "string \<Rightarrow> nat" where
  "find_if_not_space [] = 0"
| "find_if_not_space (c # cs) = (if \<not> isspace c then 0 else Suc (find_if_not_space cs))"

text \<open>
  \<open>TrimSpaces\<close>: erase from \<open>begin()\<close> to the first non-space; then search the reversed
  string for its first non-space and erase from the \<open>base()\<close> of that reverse iterator to
  \<open>end()\<close>.
\<close>

definition TrimSpaces :: "string \<Rightarrow> string" where
  "TrimSpaces str =
     (let s1 = drop (find_if_not_space str) str;
          k = length s1 - find_if_not_space (rev s1)
      in take k s1)"

text \<open>
  \<open>std::string::find_first_of\<close> with a search set; \<open>None\<close> is \<open>std::string::npos\<close>.
\<close>

fun find_first_of :: "string \<Rightarrow> string \<Rightarrow> nat option" where
  "find_first_of [] chars = None"
| "find_first_of (c # cs) chars =
     (if c \<in> set chars then Some 0 else map_option Suc (find_first_of cs chars))"

subsection \<open>Vocabulary of the specification\<close>

text \<open>
  Follows the specification's words, not the code: two strings are equal
  case-insensitively when they agree after case folding; a string starts
  case-insensitively with a prefix when its first characters are such a match;
  trimming removes the leading and the trailing whitespace.
\<close>

definition ci_equal :: "string \<Rightarrow> string \<Rightarrow> bool" where
  "ci_equal a b = (map tolower a = map tolower b)"

definition ci_starts_with :: "string \<Rightarrow> string \<Rightarrow> bool" where
  "ci_starts_with p s = ci_equal (take (length p) s) p"

definition trimmed :: "string \<Rightarrow> string" where
  "trimmed s = rev (dropWhile isspace (rev (dropWhile isspace s)))"

subsection \<open>Data of the client\<close>

text \<open>\<open>HttpResponse\<close>: \<open>mapHeaders\<close> is a \<open>std::unordered_map\<close> from name to value.\<close>

record HttpResponse =
  iCode :: cint
  mapHeaders :: "string \<rightharpoonup> string"
  strBody :: string

text \<open>The constructor \<open>HttpResponse() : iCode(0)\<close>.\<close>

definition HttpResponse_new :: HttpResponse where
  "HttpResponse_new = \<lparr>iCode = 0, mapHeaders = Map.empty, strBody = []\<rparr>"

text \<open>
  \<open>UploadObject\<close>: \<open>pszData\<close> is a pointer into the caller's bytes; the model holds the
  bytes from the pointer onwards, so advancing the pointer drops from the front.
\<close>

record UploadObject =
  pszData :: string
  usLength :: size_t

subsection \<open>The REST callbacks\<close>

text \<open>
  Each callback receives the engine's buffer, two \<open>size_t\<close> factors and the user data
  object; it returns its \<open>size_t\<close> result with the updated object. \<open>pCurlData\<close> is the
  memory at the pointer.
\<close>

definition RestWriteCallback ::
  "string \<Rightarrow> size_t \<Rightarrow> size_t \<Rightarrow> HttpResponse \<Rightarrow> size_t \<times> HttpResponse" where
  "RestWriteCallback pCurlData usBlockCount usBlockSize pServerResponse =
     (usBlockCount * usBlockSize,
      pServerResponse\<lparr>strBody := strBody pServerResponse
         @ take (unat (usBlockCount * usBlockSize)) pCurlData\<rparr>)"

definition RestHeaderCallback ::
  "string \<Rightarrow> size_t \<Rightarrow> size_t \<Rightarrow> HttpResponse \<Rightarrow> size_t \<times> HttpResponse" where
  "RestHeaderCallback pCurlData usBlockCount usBlockSize pServerResponse =
     (let strHeader = take (unat (usBlockCount * usBlockSize)) pCurlData in
      case find_first_of strHeader '':'' of
        None \<Rightarrow>
          (let strHeader = TrimSpaces strHeader in
           if length strHeader = 0 then (usBlockCount * usBlockSize, pServerResponse)
           else (usBlockCount * usBlockSize,
                 pServerResponse\<lparr>mapHeaders :=
                   (mapHeaders pServerResponse)(strHeader \<mapsto> ''present'')\<rparr>))
      | Some usSeperator \<Rightarrow>
          (let strKey = TrimSpaces (take usSeperator strHeader);
               strValue = TrimSpaces (drop (usSeperator + 1) strHeader)
           in (usBlockCount * usBlockSize,
               pServerResponse\<lparr>mapHeaders :=
                 (mapHeaders pServerResponse)(strKey \<mapsto> strValue)\<rparr>)))"

text \<open>
  \<open>RestReadCallback\<close> returns the bytes \<open>memcpy\<close> wrote to the engine's buffer, the
  advanced payload and the copied count.
\<close>

definition RestReadCallback ::
  "size_t \<Rightarrow> size_t \<Rightarrow> UploadObject \<Rightarrow> string \<times> UploadObject \<times> size_t" where
  "RestReadCallback usBlockCount usBlockSize Payload =
     (let usCurlSize = usBlockCount * usBlockSize;
          usCopySize = (if usLength Payload < usCurlSize then usLength Payload else usCurlSize)
      in (take (unat usCopySize) (pszData Payload),
          \<lparr>pszData = drop (unat usCopySize) (pszData Payload),
           usLength = usLength Payload - usCopySize\<rparr>,
          usCopySize))"

text \<open>
  The payload \<open>Put\<close> builds over the caller's bytes
  (\<open>Payload.pszData = strPutData.c_str(); Payload.usLength = strPutData.size()\<close>).
\<close>

definition upload_view :: "string \<Rightarrow> UploadObject" where
  "upload_view strPutData = \<lparr>pszData = strPutData, usLength = of_nat (length strPutData)\<rparr>"

text \<open>
  The engine calling the read callback \<open>k\<close> times in a row with the same block
  factors: the chunks it received, in order, the counts returned, and the payload left.
\<close>

fun read_calls ::
  "nat \<Rightarrow> size_t \<Rightarrow> size_t \<Rightarrow> UploadObject \<Rightarrow> string list \<times> size_t list \<times> UploadObject" where
  "read_calls 0 c b p = ([], [], p)"
| "read_calls (Suc k) c b p =
     (case RestReadCallback c b p of
        (chunk, p', n) \<Rightarrow>
          (case read_calls k c b p' of (chunks, ns, p'') \<Rightarrow> (chunk # chunks, n # ns, p'')))"

subsection \<open>The engine, as far as the client sees it\<close>

text \<open>
  libcurl is outside the repository. The model keeps what the client reads from it or
  writes to it: the options set on an easy handle, the response code the handle reports,
  the outcome code of a transfer, and the callback invocations the engine makes during a
  transfer.
\<close>

datatype CURLcode = CURLE_OK | CURLE_FAILED_INIT | CURLE_ERROR nat

datatype CURLoption =
    CURLOPT_URL | CURLOPT_HTTPHEADER | CURLOPT_USERAGENT | CURLOPT_AUTOREFERER
  | CURLOPT_FOLLOWLOCATION | CURLOPT_TIMEOUT | CURLOPT_NOSIGNAL | CURLOPT_PROXY
  | CURLOPT_HTTPPROXYTUNNEL | CURLOPT_PROGRESSFUNCTION | CURLOPT_PROGRESSDATA
  | CURLOPT_NOPROGRESS | CURLOPT_USE_SSL | CURLOPT_SSL_VERIFYPEER | CURLOPT_SSL_VERIFYHOST
  | CURLOPT_CAINFO | CURLOPT_SSLCERT | CURLOPT_SSLKEY | CURLOPT_KEYPASSWD
  | CURLOPT_HTTPGET | CURLOPT_WRITEFUNCTION | CURLOPT_WRITEDATA | CURLOPT_HEADERFUNCTION
  | CURLOPT_HEADERDATA | CURLOPT_CUSTOMREQUEST | CURLOPT_NOBODY | CURLOPT_POST
  | CURLOPT_POSTFIELDS | CURLOPT_POSTFIELDSIZE | CURLOPT_PUT | CURLOPT_UPLOAD
  | CURLOPT_READFUNCTION | CURLOPT_READDATA | CURLOPT_INFILESIZE

text \<open>The functions and the data objects a request hands to the engine.\<close>

datatype callback =
    Fn_WriteToFileCallback | Fn_RestWriteCallback | Fn_RestHeaderCallback
  | Fn_RestReadCallback | Fn_ProgressFnCallback

datatype pointer = Ptr_Response | Ptr_ofsOutput | Ptr_Payload | Ptr_ProgressStruct

datatype optval =
    OLong int | OStr string | OSlist "string list" | OFn callback | OPtr pointer
  | CURLUSESSL_ALL

record CURL =
  options :: "CURLoption \<rightharpoonup> optval"
  response_code :: long

definition curl_easy_setopt :: "CURL \<Rightarrow> CURLoption \<times> optval \<Rightarrow> CURL" where
  "curl_easy_setopt h kv = h\<lparr>options := (options h)(fst kv \<mapsto> snd kv)\<rparr>"

definition curl_easy_reset :: "CURL \<Rightarrow> CURL" where
  "curl_easy_reset h = h\<lparr>options := Map.empty\<rparr>"

text \<open>
  One call of the engine to a registered callback, with the arguments it passes: the
  buffer and the two size factors.
\<close>

datatype event =
    WriteCall string size_t size_t
  | HeaderCall string size_t size_t
  | ReadCall size_t size_t

text \<open>
  What the model takes from the linked libcurl for one request: the numeric value of
  the enumerator \<open>CURLOPT_SSL_VERIFYHOST\<close> in \<open>curl.h\<close> (the code uses it as an integer),
  and what \<open>curl_easy_perform\<close> does when it is called: the callback invocations it
  makes, the code it returns and the response code the handle reports afterwards.
\<close>

record libcurl =
  CURLOPT_SSL_VERIFYHOST_value :: int
  transfer_events :: "event list"
  transfer_result :: CURLcode
  transfer_status :: long

text \<open>The calls to the engine that are not option settings, as a trace.\<close>

datatype engine_call =
    Call_easy_init | Call_easy_cleanup | Call_easy_reset | Call_easy_perform
  | Call_slist_free_all "string list"

subsection \<open>The client object and the world around it\<close>

text \<open>
  A \<open>curl_slist*\<close> is \<open>None\<close> when null, else the strings of the list. The easy handle
  is owned by the client alone, so the object holds the handle's state.
\<close>

record CHTTPClient =
  m_strURL :: string
  m_strProxy :: string
  m_bNoSignal :: bool
  m_bHTTPS :: bool
  m_eSettingsFlags :: SettingsFlag
  m_pHeaderlist :: "string list option"
  m_strSSLCertFile :: string
  m_strSSLKeyFile :: string
  m_strSSLKeyPwd :: string
  m_pCurlSession :: "CURL option"
  m_iCurlTimeout :: int
  m_bProgressCallbackSet :: bool

definition CHTTPClient_new :: CHTTPClient where
  "CHTTPClient_new =
     \<lparr>m_strURL = [], m_strProxy = [], m_bNoSignal = False, m_bHTTPS = False,
      m_eSettingsFlags = ALL_FLAGS, m_pHeaderlist = None, m_strSSLCertFile = [],
      m_strSSLKeyFile = [], m_strSSLKeyPwd = [], m_pCurlSession = None,
      m_iCurlTimeout = 0, m_bProgressCallbackSet = False\<rparr>"

text \<open>The messages given to the logger \<open>m_oLog\<close>; a formatted one keeps its arguments.\<close>

datatype log_msg =
    LOG_ERROR_EMPTY_HOST_MSG
  | LOG_WARNING_OBJECT_NOT_CLEANED
  | LOG_ERROR_CURL_ALREADY_INIT_MSG
  | LOG_ERROR_CURL_NOT_INIT_MSG
  | LOG_ERROR_CURL_REQ_FAILURE string CURLcode long
  | LOG_ERROR_CURL_REST_FAILURE string CURLcode
  | LOG_ERROR_CURL_DOWNLOAD_FAILURE string string CURLcode long
  | LOG_ERROR_DOWNLOAD_FILE string

text \<open>
  The state a member function works on: the object, the static CA file path, the
  messages logged so far, the engine calls made so far, and the files: their contents
  and which paths can be opened for writing.
\<close>

record world =
  this :: CHTTPClient
  s_strCertificationAuthorityFile :: string
  logged :: "log_msg list"
  engine_calls :: "engine_call list"
  files :: "string \<rightharpoonup> string"
  writable :: "string \<Rightarrow> bool"

text \<open>An output file stream: whether it is open and what was written to it.\<close>

record ofstream =
  is_open :: bool
  buffer :: string

text \<open>
  The local objects of a request that the callbacks point to. An object a request does
  not have is in its default-constructed state.
\<close>

record userdata =
  ud_Response :: HttpResponse
  ud_ofsOutput :: ofstream
  ud_Payload :: UploadObject

definition ofstream_new :: ofstream where
  "ofstream_new = \<lparr>is_open = False, buffer = []\<rparr>"

definition UploadObject_new :: UploadObject where
  "UploadObject_new = \<lparr>pszData = [], usLength = 0\<rparr>"

text \<open>\<open>if (m_eSettingsFlags & ENABLE_LOG) m_oLog(msg);\<close>\<close>

definition log_if_enabled :: "log_msg \<Rightarrow> world \<Rightarrow> world" where
  "log_if_enabled msg w =
     (if m_eSettingsFlags (this w) AND ENABLE_LOG \<noteq> 0 then w\<lparr>logged := logged w @ [msg]\<rparr>
      else w)"

text \<open>\<open>curl_easy_setopt(m_pCurlSession, ...)\<close> for a list of options, in order.\<close>

definition setopts :: "(CURLoption \<times> optval) list \<Rightarrow> world \<Rightarrow> world" where
  "setopts kvs w =
     w\<lparr>this := (this w)\<lparr>m_pCurlSession :=
         map_option (\<lambda>h. foldl curl_easy_setopt h kvs) (m_pCurlSession (this w))\<rparr>\<rparr>"

definition easy_reset :: "world \<Rightarrow> world" where
  "easy_reset w =
     w\<lparr>this := (this w)\<lparr>m_pCurlSession := map_option curl_easy_reset (m_pCurlSession (this w))\<rparr>,
       engine_calls := engine_calls w @ [Call_easy_reset]\<rparr>"

text \<open>
  \<open>if (m_pHeaderlist) { curl_slist_free_all(m_pHeaderlist); m_pHeaderlist = nullptr; }\<close>
\<close>

definition free_headerlist :: "world \<Rightarrow> world" where
  "free_headerlist w =
     (case m_pHeaderlist (this w) of
        Some hl \<Rightarrow>
          w\<lparr>this := (this w)\<lparr>m_pHeaderlist := None\<rparr>,
            engine_calls := engine_calls w @ [Call_slist_free_all hl]\<rparr>
      | None \<Rightarrow> w)"

subsection \<open>Session\<close>

text \<open>\<open>new_handle\<close> is what \<open>curl_easy_init()\<close> returns: \<open>None\<close> when it fails.\<close>

definition InitSession :: "bool \<Rightarrow> SettingsFlag \<Rightarrow> CURL option \<Rightarrow> world \<Rightarrow> bool \<times> world" where
  "InitSession bHTTPS eSettingsFlags new_handle w =
     (case m_pCurlSession (this w) of
        Some _ \<Rightarrow>
          (False,
           if eSettingsFlags AND ENABLE_LOG \<noteq> 0
           then w\<lparr>logged := logged w @ [LOG_ERROR_CURL_ALREADY_INIT_MSG]\<rparr> else w)
      | None \<Rightarrow>
          (new_handle \<noteq> None,
           w\<lparr>this := (this w)\<lparr>m_pCurlSession := new_handle, m_bHTTPS := bHTTPS,
                                m_eSettingsFlags := eSettingsFlags\<rparr>,
             engine_calls := engine_calls w @ [Call_easy_init]\<rparr>))"

definition CleanupSession :: "world \<Rightarrow> bool \<times> world" where
  "CleanupSession w =
     (case m_pCurlSession (this w) of
        None \<Rightarrow> (False, log_if_enabled LOG_ERROR_CURL_NOT_INIT_MSG w)
      | Some _ \<Rightarrow>
          (True,
           free_headerlist
             (w\<lparr>this := (this w)\<lparr>m_pCurlSession := None\<rparr>,
                engine_calls := engine_calls w @ [Call_easy_cleanup]\<rparr>)))"

text \<open>A session is Active while the engine handle is non-null.\<close>

definition Active :: "world \<Rightarrow> bool" where
  "Active w = (m_pCurlSession (this w) \<noteq> None)"

text \<open>Sequences of session calls, each \<open>InitSession\<close> with its arguments and allocation.\<close>

datatype session_call = Init bool SettingsFlag "CURL option" | Cleanup

fun session_step :: "session_call \<Rightarrow> world \<Rightarrow> bool \<times> world" where
  "session_step (Init bHTTPS eSettingsFlags new_handle) w =
     InitSession bHTTPS eSettingsFlags new_handle w"
| "session_step Cleanup w = CleanupSession w"

text \<open>The results of the calls, in order, and the world after the last one.\<close>

fun session_run :: "session_call list \<Rightarrow> world \<Rightarrow> bool list \<times> world" where
  "session_run [] w = ([], w)"
| "session_run (x # xs) w =
     (case session_step x w of
        (r, w1) \<Rightarrow> (case session_run xs w1 of (rs, w2) \<Rightarrow> (r # rs, w2)))"

subsection \<open>Request options\<close>

definition SetProxy :: "string \<Rightarrow> CHTTPClient \<Rightarrow> CHTTPClient" where
  "SetProxy strProxy c =
     (if strProxy = [] then c
      else
        (let strUri = map toupper strProxy in
         if take 4 strUri \<noteq> ''HTTP'' then c\<lparr>m_strProxy := ''http://'' @ strProxy\<rparr>
         else c\<lparr>m_strProxy := strProxy\<rparr>))"

definition CheckURL :: "string \<Rightarrow> CHTTPClient \<Rightarrow> CHTTPClient" where
  "CheckURL strURL c =
     (let strTmp = map toupper strURL in
      if take 7 strTmp = ''HTTP://'' then c\<lparr>m_bHTTPS := False, m_strURL := strURL\<rparr>
      else if take 8 strTmp = ''HTTPS://'' then c\<lparr>m_bHTTPS := True, m_strURL := strURL\<rparr>
      else c\<lparr>m_strURL := (if m_bHTTPS c then ''https://'' else ''http://'') @ strURL\<rparr>)"

text \<open>\<open>AddHeader\<close>: \<open>curl_slist_append\<close> starts a list when given null.\<close>

definition AddHeader :: "string \<Rightarrow> CHTTPClient \<Rightarrow> CHTTPClient" where
  "AddHeader strHeader c =
     c\<lparr>m_pHeaderlist :=
         Some (case m_pHeaderlist c of None \<Rightarrow> [strHeader] | Some hl \<Rightarrow> hl @ [strHeader])\<rparr>"

subsection \<open>Performing a request\<close>

definition CLIENT_USERAGENT :: string where
  "CLIENT_USERAGENT = ''httpclientcpp-agent/1.0''"

text \<open>
  The \<open>curl_easy_setopt\<close> calls of \<open>Perform\<close>, in the order of the code, each under its
  guard. \<open>ca\<close> is the static \<open>s_strCertificationAuthorityFile\<close>. The two calls after
  \<open>CURLOPT_USE_SSL\<close> are written as in the source: both name \<open>CURLOPT_SSL_VERIFYPEER\<close>,
  and the second tests the flags against the enumerator \<open>CURLOPT_SSL_VERIFYHOST\<close>.
\<close>

definition Perform_setopts :: "libcurl \<Rightarrow> string \<Rightarrow> CHTTPClient \<Rightarrow> (CURLoption \<times> optval) list" where
  "Perform_setopts lib ca c =
     [(CURLOPT_URL, OStr (m_strURL c))]
     @ (case m_pHeaderlist c of Some hl \<Rightarrow> [(CURLOPT_HTTPHEADER, OSlist hl)] | None \<Rightarrow> [])
     @ [(CURLOPT_USERAGENT, OStr CLIENT_USERAGENT),
        (CURLOPT_AUTOREFERER, OLong 1),
        (CURLOPT_FOLLOWLOCATION, OLong 1)]
     @ (if m_iCurlTimeout c > 0
        then [(CURLOPT_TIMEOUT, OLong (m_iCurlTimeout c)), (CURLOPT_NOSIGNAL, OLong 1)]
        else [])
     @ (if m_strProxy c \<noteq> []
        then [(CURLOPT_PROXY, OStr (m_strProxy c)), (CURLOPT_HTTPPROXYTUNNEL, OLong 1)]
        else [])
     @ (if m_bNoSignal c then [(CURLOPT_NOSIGNAL, OLong 1)] else [])
     @ (if m_bProgressCallbackSet c
        then [(CURLOPT_PROGRESSFUNCTION, OFn Fn_ProgressFnCallback),
              (CURLOPT_PROGRESSDATA, OPtr Ptr_ProgressStruct),
              (CURLOPT_NOPROGRESS, OLong 0)]
        else [])
     @ (if m_bHTTPS c
        then [(CURLOPT_USE_SSL, CURLUSESSL_ALL),
              (CURLOPT_SSL_VERIFYPEER,
                 OLong (if m_eSettingsFlags c AND VERIFY_PEER \<noteq> 0 then 1 else 0)),
              (CURLOPT_SSL_VERIFYPEER,
                 OLong (if uint (m_eSettingsFlags c) AND CURLOPT_SSL_VERIFYHOST_value lib \<noteq> 0
                        then 2 else 0))]
        else [])
     @ (if m_bHTTPS c \<and> ca \<noteq> [] then [(CURLOPT_CAINFO, OStr ca)] else [])
     @ (if m_bHTTPS c \<and> m_strSSLCertFile c \<noteq> []
        then [(CURLOPT_SSLCERT, OStr (m_strSSLCertFile c))] else [])
     @ (if m_bHTTPS c \<and> m_strSSLKeyFile c \<noteq> []
        then [(CURLOPT_SSLKEY, OStr (m_strSSLKeyFile c))] else [])
     @ (if m_bHTTPS c \<and> m_strSSLKeyPwd c \<noteq> []
        then [(CURLOPT_KEYPASSWD, OStr (m_strSSLKeyPwd c))] else [])"

text \<open>
  \<open>WriteToFileCallback\<close>; the stream pointer is \<open>None\<close> when null.
\<close>

definition WriteToFileCallback ::
  "string \<Rightarrow> size_t \<Rightarrow> size_t \<Rightarrow> ofstream option \<Rightarrow> size_t \<times> ofstream option" where
  "WriteToFileCallback buff size' nmemb data =
     (if size' = 0 \<or> nmemb = 0 \<or> size' * nmemb < 1 then (0, data)
      else
        (case data of
           None \<Rightarrow> (0, data)
         | Some pFileStream \<Rightarrow>
             (size' * nmemb,
              Some (if is_open pFileStream
                    then pFileStream\<lparr>buffer := buffer pFileStream
                           @ take (unat (size' * nmemb)) buff\<rparr>
                    else pFileStream))))"

text \<open>
  One callback invocation of the engine: it calls the function registered on the
  handle for that kind of data, on the request's object of that function. Data for which
  no function of the model is registered leaves the objects as they are.
\<close>

fun deliver :: "CURL \<Rightarrow> userdata \<Rightarrow> event \<Rightarrow> userdata" where
  "deliver h ud (WriteCall buf n m) =
     (if options h CURLOPT_WRITEFUNCTION = Some (OFn Fn_RestWriteCallback)
      then ud\<lparr>ud_Response := snd (RestWriteCallback buf n m (ud_Response ud))\<rparr>
      else if options h CURLOPT_WRITEFUNCTION = Some (OFn Fn_WriteToFileCallback)
      then (case snd (WriteToFileCallback buf n m (Some (ud_ofsOutput ud))) of
              Some f \<Rightarrow> ud\<lparr>ud_ofsOutput := f\<rparr> | None \<Rightarrow> ud)
      else ud)"
| "deliver h ud (HeaderCall buf n m) =
     (if options h CURLOPT_HEADERFUNCTION = Some (OFn Fn_RestHeaderCallback)
      then ud\<lparr>ud_Response := snd (RestHeaderCallback buf n m (ud_Response ud))\<rparr>
      else ud)"
| "deliver h ud (ReadCall n m) =
     (if options h CURLOPT_READFUNCTION = Some (OFn Fn_RestReadCallback)
      then ud\<lparr>ud_Payload := fst (snd (RestReadCallback n m (ud_Payload ud)))\<rparr>
      else ud)"

text \<open>
  \<open>curl_easy_perform\<close>: the engine makes its callback invocations, returns its outcome
  code and leaves the response code in the handle.
\<close>

definition curl_easy_perform :: "libcurl \<Rightarrow> userdata \<Rightarrow> CURL \<Rightarrow> CURLcode \<times> userdata \<times> CURL" where
  "curl_easy_perform lib ud h =
     (transfer_result lib,
      foldl (deliver h) ud (transfer_events lib),
      h\<lparr>response_code := transfer_status lib\<rparr>)"

definition Perform :: "libcurl \<Rightarrow> userdata \<Rightarrow> world \<Rightarrow> CURLcode \<times> userdata \<times> world" where
  "Perform lib ud w =
     (case m_pCurlSession (this w) of
        None \<Rightarrow> (CURLE_FAILED_INIT, ud, log_if_enabled LOG_ERROR_CURL_NOT_INIT_MSG w)
      | Some h \<Rightarrow>
          (let h1 = foldl curl_easy_setopt h
                      (Perform_setopts lib (s_strCertificationAuthorityFile w) (this w))
           in case curl_easy_perform lib ud h1 of
                (res, ud', h2) \<Rightarrow>
                  (res, ud',
                   free_headerlist
                     (w\<lparr>this := (this w)\<lparr>m_pCurlSession := Some h2\<rparr>,
                        engine_calls := engine_calls w @ [Call_easy_perform]\<rparr>))))"

subsection \<open>Downloading a file\<close>

text \<open>
  \<open>DownloadFile\<close> returns its result with the value left in \<open>lHTTPStatusCode\<close>. Opening
  the stream with \<open>trunc\<close> succeeds on a writable path and empties the file; closing the
  stream leaves what was written in the file.
\<close>

definition DownloadFile ::
  "string \<Rightarrow> string \<Rightarrow> long \<Rightarrow> libcurl \<Rightarrow> world \<Rightarrow> bool \<times> long \<times> world" where
  "DownloadFile strLocalFile strURL lHTTPStatusCode lib w =
     (if strURL = [] \<or> strLocalFile = [] then (False, lHTTPStatusCode, w)
      else
        (case m_pCurlSession (this w) of
           None \<Rightarrow> (False, lHTTPStatusCode, log_if_enabled LOG_ERROR_CURL_NOT_INIT_MSG w)
         | Some _ \<Rightarrow>
             (let w1 = easy_reset w;
                  w2 = w1\<lparr>this := CheckURL strURL (this w1)\<rparr>
              in if writable w2 strLocalFile
                 then
                   (let w3 = w2\<lparr>files := (files w2)(strLocalFile \<mapsto> [])\<rparr>;
                        w4 = setopts [(CURLOPT_HTTPGET, OLong 1),
                                      (CURLOPT_WRITEFUNCTION, OFn Fn_WriteToFileCallback),
                                      (CURLOPT_WRITEDATA, OPtr Ptr_ofsOutput)] w3
                    in case Perform lib
                              \<lparr>ud_Response = HttpResponse_new,
                               ud_ofsOutput = \<lparr>is_open = True, buffer = []\<rparr>,
                               ud_Payload = UploadObject_new\<rparr> w4 of
                         (res, ud, w5) \<Rightarrow>
                           (let w6 = w5\<lparr>files :=
                                       (files w5)(strLocalFile \<mapsto> buffer (ud_ofsOutput ud))\<rparr>;
                                code = (case m_pCurlSession (this w6) of
                                          Some h \<Rightarrow> response_code h
                                        | None \<Rightarrow> lHTTPStatusCode);
                                w7 = (if code \<noteq> 200
                                      then w6\<lparr>files := (files w6)(strLocalFile := None)\<rparr>
                                      else w6)
                            in if res \<noteq> CURLE_OK
                               then (False, code,
                                     log_if_enabled
                                       (LOG_ERROR_CURL_DOWNLOAD_FAILURE strLocalFile strURL res code)
                                       w7)
                               else (True, code, w7)))
                 else if m_eSettingsFlags (this w2) AND ENABLE_LOG \<noteq> 0
                 then (False, lHTTPStatusCode,
                       w2\<lparr>logged := logged w2 @ [LOG_ERROR_DOWNLOAD_FILE strLocalFile]\<rparr>)
                 else (True, lHTTPStatusCode, w2))))"

subsection \<open>REST requests\<close>



text \<open>The objects of a REST request: the caller's response and, for \<open>Put\<close>, the payload.\<close>

definition rest_objects :: "HttpResponse \<Rightarrow> UploadObject \<Rightarrow> userdata" where
  "rest_objects Resp pl = \<lparr>ud_Response = Resp, ud_ofsOutput = ofstream_new, ud_Payload = pl\<rparr>"







subsection \<open>A freshly constructed client\<close>

text \<open>
  The world right after the constructor: nothing logged, no engine call made, no file,
  every path writable.
\<close>

definition world_new :: world where
  "world_new =
     \<lparr>this = CHTTPClient_new, s_strCertificationAuthorityFile = [], logged = [],
      engine_calls = [], files = Map.empty, writable = (\<lambda>_. True)\<rparr>"

text \<open>The handle a successful \<open>curl_easy_init()\<close> returns: no option set yet.\<close>

definition CURL_new :: CURL where
  "CURL_new = \<lparr>options = Map.empty, response_code = 0\<rparr>"

text \<open>A client with an Active session: \<open>InitSession(true, ALL_FLAGS)\<close> after the constructor.\<close>

definition world_active :: world where
  "world_active = snd (InitSession True ALL_FLAGS (Some CURL_new) world_new)"


text \<open>
  An Active HTTPS session asked to verify peer and host:
  \<open>InitSession(true, VERIFY_PEER | VERIFY_HOST)\<close>.
\<close>

definition world_https :: world where
  "world_https = snd (InitSession True (VERIFY_PEER OR VERIFY_HOST) (Some CURL_new) world_new)"

text \<open>
  An Active session with logging off (\<open>InitSession(false, NO_FLAGS)\<close>) where no file can
  be opened for writing.
\<close>

definition world_readonly :: world where
  "world_readonly =
     (snd (InitSession False NO_FLAGS (Some CURL_new) world_new))\<lparr>writable := (\<lambda>_. False)\<rparr>"

text \<open>A sequence of session calls: the fifth allocation fails.\<close>

definition session_calls_example :: "session_call list" where
  "session_calls_example =
     [Init True ALL_FLAGS (Some CURL_new), Init False NO_FLAGS (Some CURL_new), Cleanup,
      Cleanup, Init True ALL_FLAGS None, Init False ENABLE_LOG (Some CURL_new)]"

subsection \<open>Vocabulary of the specification, for sessions and REST calls\<close>

text \<open>
  Follows the specification's words: among the calls made, with their results, there is
  an \<open>InitSession\<close> that succeeded and no \<open>CleanupSession\<close> comes after it.
\<close>

definition init_succeeded_uncleaned :: "session_call list \<Rightarrow> bool list \<Rightarrow> bool" where
  "init_succeeded_uncleaned calls rs =
     (\<exists>i<length calls. (\<exists>b f a. calls ! i = Init b f a) \<and> rs ! i
         \<and> (\<forall>j. i < j \<and> j < length calls \<longrightarrow> calls ! j \<noteq> Cleanup))"


section \<open>Properties\<close>

lemma find_if_not_space_dropWhile: "drop (find_if_not_space s) s = dropWhile isspace s"
  by (induction s) auto

lemma find_if_not_space_le: "find_if_not_space s \<le> length s"
  by (induction s) auto

lemma take_rev_dropWhile:
  "take (length s - find_if_not_space (rev s)) s = rev (dropWhile isspace (rev s))"
proof -
  have "rev (drop (find_if_not_space (rev s)) (rev s))
      = take (length (rev s) - find_if_not_space (rev s)) (rev (rev s))"
    by (simp only: rev_drop)
  then show ?thesis
    by (simp add: find_if_not_space_dropWhile)
qed

lemma TrimSpaces_trimmed: "TrimSpaces s = trimmed s"
  by (simp add: TrimSpaces_def trimmed_def Let_def find_if_not_space_dropWhile take_rev_dropWhile)

subsection \<open>URL and proxy normalization\<close>

lemma of_char_toupper:
  "(of_char (toupper c) :: nat) =
     (if 97 \<le> (of_char c :: nat) \<and> (of_char c :: nat) \<le> 122 then of_char c - 32 else of_char c)"
proof -
  have "(of_char c :: nat) - 32 < 256"
    using nat_of_char_less_256 [of c] by linarith
  then show ?thesis
    by (simp add: toupper_def Let_def)
qed

lemma of_char_tolower:
  "(of_char (tolower c) :: nat) =
     (if 65 \<le> (of_char c :: nat) \<and> (of_char c :: nat) \<le> 90 then of_char c + 32 else of_char c)"
proof -
  have "(of_char c :: nat) \<le> 90 \<Longrightarrow> (of_char c :: nat) + 32 < 256"
    by linarith
  then show ?thesis
    by (simp add: tolower_def Let_def)
qed

lemma toupper_eq_iff_tolower_eq: "toupper c = toupper d \<longleftrightarrow> tolower c = tolower d"
proof -
  define n :: nat where "n = of_char c"
  define m :: nat where "m = of_char d"
  have "toupper c = toupper d \<longleftrightarrow> (of_char (toupper c) :: nat) = of_char (toupper d)"
    by simp
  also have "\<dots> \<longleftrightarrow> (if 97 \<le> n \<and> n \<le> 122 then n - 32 else n)
                    = (if 97 \<le> m \<and> m \<le> 122 then m - 32 else m)"
    by (simp only: of_char_toupper n_def m_def)
  also have "\<dots> \<longleftrightarrow> (if 65 \<le> n \<and> n \<le> 90 then n + 32 else n)
                    = (if 65 \<le> m \<and> m \<le> 90 then m + 32 else m)"
    by (simp split: if_splits) arith
  also have "\<dots> \<longleftrightarrow> (of_char (tolower c) :: nat) = of_char (tolower d)"
    by (simp only: of_char_tolower n_def m_def)
  also have "\<dots> \<longleftrightarrow> tolower c = tolower d"
    by simp
  finally show ?thesis .
qed

lemma map_toupper_eq_iff:
  "map toupper xs = map toupper ys \<longleftrightarrow> map tolower xs = map tolower ys"
proof (induction xs arbitrary: ys)
  case Nil
  then show ?case by auto
next
  case (Cons x xs)
  then show ?case
    by (cases ys) (auto simp: toupper_eq_iff_tolower_eq)
qed

lemma upper_literals:
  "map toupper ''http://'' = ''HTTP://''"
  "map toupper ''https://'' = ''HTTPS://''"
  "map toupper ''HTTP'' = ''HTTP''"
  by code_simp+

lemma literal_lengths:
  "length ''http://'' = 7" "length ''https://'' = 8"
  by simp_all

lemma compare_HTTP_iff:
  "take 7 (map toupper s) = ''HTTP://'' \<longleftrightarrow> ci_starts_with ''http://'' s"
  "take 8 (map toupper s) = ''HTTPS://'' \<longleftrightarrow> ci_starts_with ''https://'' s"
  "take 4 (map toupper s) = ''HTTP'' \<longleftrightarrow> ci_equal (take 4 s) ''HTTP''"
proof -
  have "take 7 (map toupper s) = ''HTTP://'' \<longleftrightarrow> map toupper (take 7 s) = map toupper ''http://''"
    by (simp only: take_map upper_literals)
  then show "take 7 (map toupper s) = ''HTTP://'' \<longleftrightarrow> ci_starts_with ''http://'' s"
    by (simp only: map_toupper_eq_iff ci_starts_with_def ci_equal_def literal_lengths)
  have "take 8 (map toupper s) = ''HTTPS://'' \<longleftrightarrow> map toupper (take 8 s) = map toupper ''https://''"
    by (simp only: take_map upper_literals)
  then show "take 8 (map toupper s) = ''HTTPS://'' \<longleftrightarrow> ci_starts_with ''https://'' s"
    by (simp only: map_toupper_eq_iff ci_starts_with_def ci_equal_def literal_lengths)
  have "take 4 (map toupper s) = ''HTTP'' \<longleftrightarrow> map toupper (take 4 s) = map toupper ''HTTP''"
    by (simp only: take_map upper_literals)
  then show "take 4 (map toupper s) = ''HTTP'' \<longleftrightarrow> ci_equal (take 4 s) ''HTTP''"
    by (simp only: map_toupper_eq_iff ci_equal_def)
qed

text \<open>
  Claim C5. \<open>CheckURL\<close>: a URL that starts case-insensitively with \<open>http://\<close> clears the
  HTTPS flag and is stored verbatim; one that starts case-insensitively with
  \<open>https://\<close> sets the flag and is stored verbatim; any other URL is stored behind
  \<open>https://\<close> when the current flag is set and behind \<open>http://\<close> when it is not, and the
  flag stays as it was. Nothing else of the object changes.
\<close>

theorem CheckURL_normalizes:
  "CheckURL strURL c =
     (if ci_starts_with ''http://'' strURL then c\<lparr>m_bHTTPS := False, m_strURL := strURL\<rparr>
      else if ci_starts_with ''https://'' strURL then c\<lparr>m_bHTTPS := True, m_strURL := strURL\<rparr>
      else c\<lparr>m_strURL := (if m_bHTTPS c then ''https://'' else ''http://'') @ strURL\<rparr>)"
  by (simp only: CheckURL_def Let_def compare_HTTP_iff)

text \<open>
  Claim C6. \<open>SetProxy\<close> on a non-empty string: when its first four characters are not
  \<open>HTTP\<close> in a case-insensitive comparison, the proxy stored is the string behind
  \<open>http://\<close>; otherwise it is the string itself.
\<close>

theorem SetProxy_normalizes:
  "strProxy \<noteq> [] \<Longrightarrow>
   m_strProxy (SetProxy strProxy c) =
     (if \<not> ci_equal (take 4 strProxy) ''HTTP'' then ''http://'' @ strProxy else strProxy)"
  by (simp add: SetProxy_def Let_def compare_HTTP_iff)

theorem SetProxy_normalizes_witness:
  "''my_proxy'' \<noteq> [] \<and> m_strProxy (SetProxy ''my_proxy'' CHTTPClient_new) = ''http://my_proxy''
   \<and> ''https://x:3128'' \<noteq> []
   \<and> m_strProxy (SetProxy ''https://x:3128'' CHTTPClient_new) = ''https://x:3128''"
proof -
  have a: "\<not> ci_equal (take 4 ''my_proxy'') ''HTTP''"
    by code_simp
  have b: "ci_equal (take 4 ''https://x:3128'') ''HTTP''"
    by code_simp
  show ?thesis
    using SetProxy_normalizes [of "''my_proxy''" CHTTPClient_new]
      SetProxy_normalizes [of "''https://x:3128''" CHTTPClient_new]
    by (simp only: a b) simp
qed

subsection \<open>Session\<close>

lemma session_run_length: "session_run calls w = (rs, w') \<Longrightarrow> length rs = length calls"
  by (induction calls arbitrary: w rs w') (auto split: prod.splits)

lemma session_run_snoc:
  "session_run (calls @ [x]) w =
     (case session_run calls w of
        (rs, w1) \<Rightarrow> (case session_step x w1 of (r, w2) \<Rightarrow> (rs @ [r], w2)))"
  by (induction calls arbitrary: w) (auto split: prod.splits)

lemma InitSession_Active:
  "Active w \<Longrightarrow>
   InitSession bHTTPS eSettingsFlags new_handle w =
     (False, if eSettingsFlags AND ENABLE_LOG \<noteq> 0
             then w\<lparr>logged := logged w @ [LOG_ERROR_CURL_ALREADY_INIT_MSG]\<rparr> else w)"
  by (auto simp: InitSession_def Active_def)

lemma InitSession_not_Active:
  "\<not> Active w \<Longrightarrow>
   fst (InitSession bHTTPS eSettingsFlags new_handle w) = (new_handle \<noteq> None)
   \<and> Active (snd (InitSession bHTTPS eSettingsFlags new_handle w)) = (new_handle \<noteq> None)"
  by (auto simp: InitSession_def Active_def)

lemma free_headerlist_session [simp]:
  "m_pCurlSession (this (free_headerlist w)) = m_pCurlSession (this w)"
  by (simp add: free_headerlist_def split: option.splits)

lemma CleanupSession_not_Active:
  "\<not> Active (snd (CleanupSession w))"
  by (auto simp: CleanupSession_def Active_def log_if_enabled_def split: option.splits)

lemma CleanupSession_mismatch:
  "\<not> Active w \<Longrightarrow> CleanupSession w = (False, log_if_enabled LOG_ERROR_CURL_NOT_INIT_MSG w)"
  by (auto simp: CleanupSession_def Active_def)

lemma uncleaned_snoc_Cleanup:
  "length rs = length calls \<Longrightarrow> \<not> init_succeeded_uncleaned (calls @ [Cleanup]) (rs @ [r])"
  unfolding init_succeeded_uncleaned_def
proof (intro notI, elim exE conjE)
  fix i b f a
  assume i: "i < length (calls @ [Cleanup])" and ini: "(calls @ [Cleanup]) ! i = Init b f a"
    and nc: "\<forall>j. i < j \<and> j < length (calls @ [Cleanup]) \<longrightarrow> (calls @ [Cleanup]) ! j \<noteq> Cleanup"
  have "i \<noteq> length calls" using ini by auto
  with i have "i < length calls" by simp
  then have "i < length calls \<and> length calls < length (calls @ [Cleanup])" by simp
  with nc have "(calls @ [Cleanup]) ! length calls \<noteq> Cleanup" by blast
  then show False by simp
qed

lemma uncleaned_snoc_Init:
  assumes "length rs = length calls"
  shows "init_succeeded_uncleaned (calls @ [Init b f a]) (rs @ [r])
         \<longleftrightarrow> r \<or> init_succeeded_uncleaned calls rs"
proof
  assume "init_succeeded_uncleaned (calls @ [Init b f a]) (rs @ [r])"
  then obtain i where i: "i < Suc (length calls)"
    and ini: "\<exists>b' f' a'. (calls @ [Init b f a]) ! i = Init b' f' a'"
    and ri: "(rs @ [r]) ! i"
    and nc: "\<forall>j. i < j \<and> j < Suc (length calls) \<longrightarrow> (calls @ [Init b f a]) ! j \<noteq> Cleanup"
    unfolding init_succeeded_uncleaned_def by auto
  show "r \<or> init_succeeded_uncleaned calls rs"
  proof (cases "i = length calls")
    case True
    with ri assms have r by (metis nth_append_length)
    then show ?thesis ..
  next
    case False
    with i have il: "i < length calls" by simp
    have "\<forall>j. i < j \<and> j < length calls \<longrightarrow> calls ! j \<noteq> Cleanup"
    proof (intro allI impI)
      fix j assume j: "i < j \<and> j < length calls"
      with nc have "(calls @ [Init b f a]) ! j \<noteq> Cleanup" by simp
      with j show "calls ! j \<noteq> Cleanup" by (simp add: nth_append)
    qed
    with il ini ri assms have "init_succeeded_uncleaned calls rs"
      unfolding init_succeeded_uncleaned_def by (auto simp: nth_append)
    then show ?thesis ..
  qed
next
  assume "r \<or> init_succeeded_uncleaned calls rs"
  then show "init_succeeded_uncleaned (calls @ [Init b f a]) (rs @ [r])"
  proof
    assume r
    then show ?thesis
      unfolding init_succeeded_uncleaned_def using assms
      by (intro exI [of _ "length calls"]) (auto simp: nth_append)
  next
    assume "init_succeeded_uncleaned calls rs"
    then obtain i where i: "i < length calls"
      and ini: "\<exists>b' f' a'. calls ! i = Init b' f' a'"
      and ri: "rs ! i"
      and nc: "\<forall>j. i < j \<and> j < length calls \<longrightarrow> calls ! j \<noteq> Cleanup"
      unfolding init_succeeded_uncleaned_def by auto
    have "\<forall>j. i < j \<and> j < length (calls @ [Init b f a]) \<longrightarrow> (calls @ [Init b f a]) ! j \<noteq> Cleanup"
      using nc by (auto simp: nth_append)
    with i ini ri assms show ?thesis
      unfolding init_succeeded_uncleaned_def
      by (intro exI [of _ i]) (auto simp: nth_append)
  qed
qed

lemma session_run_Active:
  assumes "\<not> Active w" and "session_run calls w = (rs, w')"
  shows "Active w' \<longleftrightarrow> init_succeeded_uncleaned calls rs"
  using assms(2)
proof (induction calls arbitrary: rs w' rule: rev_induct)
  case Nil
  with assms(1) show ?case by (simp add: init_succeeded_uncleaned_def)
next
  case (snoc x xs)
  obtain rs1 w1 where r1: "session_run xs w = (rs1, w1)"
    by (cases "session_run xs w") auto
  obtain r w2 where st: "session_step x w1 = (r, w2)"
    by (cases "session_step x w1") auto
  from snoc.prems r1 st have eq: "rs = rs1 @ [r]" "w' = w2"
    by (simp_all add: session_run_snoc)
  have len: "length rs1 = length xs"
    by (rule session_run_length [OF r1])
  note IH = snoc.IH [OF r1]
  show ?case
  proof (cases x)
    case Cleanup
    with st have "\<not> Active w2"
      using CleanupSession_not_Active [of w1] by simp
    then show ?thesis
      using uncleaned_snoc_Cleanup [OF len, of r] by (simp add: eq Cleanup)
  next
    case (Init b f a)
    show ?thesis
    proof (cases "Active w1")
      case True
      with st Init have "r = False" "Active w2"
        by (auto simp: InitSession_Active Active_def)
      then show ?thesis
        using IH True by (simp add: eq Init uncleaned_snoc_Init [OF len])
    next
      case False
      with st Init InitSession_not_Active [OF False, of b f a] have "Active w2 = r"
        by auto
      then show ?thesis
        using IH False by (simp add: eq Init uncleaned_snoc_Init [OF len])
    qed
  qed
qed

text \<open>
  Claim C2. From a client without a session, after any sequence of \<open>InitSession\<close> and
  \<open>CleanupSession\<close> calls the session is Active exactly when some \<open>InitSession\<close> of the
  sequence succeeded and no \<open>CleanupSession\<close> follows it. \<open>InitSession\<close> on an Active
  session and \<open>CleanupSession\<close> without a session return false, leave every member of
  the client as it was and make no engine call.
\<close>

theorem session_lifecycle:
  "(\<not> Active w0 \<longrightarrow>
      (case session_run calls w0 of
         (rs, w') \<Rightarrow> Active w' \<longleftrightarrow> init_succeeded_uncleaned calls rs))
   \<and> (Active wa \<longrightarrow>
        fst (InitSession bHTTPS eSettingsFlags new_handle wa) = False
      \<and> this (snd (InitSession bHTTPS eSettingsFlags new_handle wa)) = this wa
      \<and> engine_calls (snd (InitSession bHTTPS eSettingsFlags new_handle wa)) = engine_calls wa)
   \<and> (\<not> Active wu \<longrightarrow>
        fst (CleanupSession wu) = False
      \<and> this (snd (CleanupSession wu)) = this wu
      \<and> engine_calls (snd (CleanupSession wu)) = engine_calls wu)"
proof (intro conjI impI)
  assume n: "\<not> Active w0"
  obtain rs w' where r: "session_run calls w0 = (rs, w')"
    by (cases "session_run calls w0") auto
  from session_run_Active [OF n r] show
    "case session_run calls w0 of (rs, w') \<Rightarrow> Active w' \<longleftrightarrow> init_succeeded_uncleaned calls rs"
    by (simp add: r)
qed (simp_all add: InitSession_Active CleanupSession_mismatch log_if_enabled_def)

theorem session_lifecycle_witness:
  "\<not> Active world_new \<and> Active world_active
   \<and> fst (session_run session_calls_example world_new) = [True, False, True, False, False, True]
   \<and> Active (snd (session_run session_calls_example world_new))
   \<and> init_succeeded_uncleaned session_calls_example [True, False, True, False, False, True]
   \<and> fst (InitSession False NO_FLAGS (Some CURL_new) world_active) = False
   \<and> this (snd (InitSession False NO_FLAGS (Some CURL_new) world_active)) = this world_active
   \<and> fst (CleanupSession world_new) = False
   \<and> this (snd (CleanupSession world_new)) = this world_new"
proof -
  have n: "\<not> Active world_new"
    by (simp add: Active_def world_new_def CHTTPClient_new_def)
  have a: "Active world_active"
    by (simp add: world_active_def InitSession_def world_new_def CHTTPClient_new_def Active_def)
  have rs: "fst (session_run session_calls_example world_new)
              = [True, False, True, False, False, True]"
    by (simp add: session_calls_example_def InitSession_def CleanupSession_def world_new_def
        CHTTPClient_new_def log_if_enabled_def free_headerlist_def ALL_FLAGS_def NO_FLAGS_def
        ENABLE_LOG_def split_def)
  have fin: "Active (snd (session_run session_calls_example world_new))"
    by (simp add: session_calls_example_def InitSession_def CleanupSession_def world_new_def
        CHTTPClient_new_def log_if_enabled_def free_headerlist_def ALL_FLAGS_def NO_FLAGS_def
        ENABLE_LOG_def split_def Active_def)
  from session_lifecycle [of world_new session_calls_example world_active False NO_FLAGS
      "Some CURL_new" world_new] n a rs fin
  show ?thesis
    by (simp add: split_def)
qed

text \<open>
  Claim C10. \<open>InitSession\<close> on a client without a session, when \<open>curl_easy_init\<close> fails:
  the call returns false, and the HTTPS flag and the settings flags of the client are
  the arguments of the call all the same.
\<close>

theorem InitSession_failed_allocation:
  "\<not> Active w \<Longrightarrow>
   fst (InitSession bHTTPS eSettingsFlags None w) = False
   \<and> m_bHTTPS (this (snd (InitSession bHTTPS eSettingsFlags None w))) = bHTTPS
   \<and> m_eSettingsFlags (this (snd (InitSession bHTTPS eSettingsFlags None w))) = eSettingsFlags"
  by (simp add: InitSession_def Active_def)

theorem InitSession_failed_allocation_witness:
  "\<not> Active world_new
   \<and> m_bHTTPS (this world_new) = False
   \<and> m_eSettingsFlags (this world_new) = ALL_FLAGS
   \<and> fst (InitSession True ENABLE_LOG None world_new) = False
   \<and> m_bHTTPS (this (snd (InitSession True ENABLE_LOG None world_new))) = True
   \<and> m_eSettingsFlags (this (snd (InitSession True ENABLE_LOG None world_new))) = ENABLE_LOG
   \<and> ENABLE_LOG \<noteq> ALL_FLAGS"
proof -
  have n: "\<not> Active world_new"
    by (simp add: Active_def world_new_def CHTTPClient_new_def)
  show ?thesis
    using n InitSession_failed_allocation [OF n, of True ENABLE_LOG]
    by (simp add: world_new_def CHTTPClient_new_def ENABLE_LOG_def ALL_FLAGS_def)
qed

subsection \<open>The read source of an upload\<close>

lemma RestReadCallback_step:
  "RestReadCallback c b p =
     (let m = min (unat (usLength p)) (unat (c * b))
      in (take m (pszData p),
          \<lparr>pszData = drop m (pszData p), usLength = usLength p - of_nat m\<rparr>,
          of_nat m))"
proof (cases "usLength p < c * b")
  case True
  then have m: "min (unat (usLength p)) (unat (c * b)) = unat (usLength p)"
    by (simp add: word_less_nat_alt)
  show ?thesis
    unfolding Let_def m using True by (simp add: RestReadCallback_def Let_def)
next
  case False
  then have m: "min (unat (usLength p)) (unat (c * b)) = unat (c * b)"
    by (simp add: word_less_nat_alt)
  show ?thesis
    unfolding Let_def m using False by (simp add: RestReadCallback_def Let_def)
qed

lemma RestReadCallback_inv:
  assumes inv: "unat (usLength p) = length (pszData p)"
    and r: "RestReadCallback c b p = (chunk, p', n)"
  shows "unat (usLength p') = length (pszData p')"
proof -
  let ?m = "min (length (pszData p)) (unat (c * b))"
  have le: "(of_nat ?m :: size_t) \<le> usLength p"
  proof (cases "usLength p < c * b")
    case True
    then have "?m = unat (usLength p)" using inv by (simp add: word_less_nat_alt)
    then show ?thesis by simp
  next
    case False
    then have "?m = unat (c * b)" using inv by (simp add: word_less_nat_alt)
    then show ?thesis using False by simp
  qed
  have um: "unat (of_nat ?m :: size_t) = ?m"
  proof (cases "usLength p < c * b")
    case True
    then have "?m = unat (usLength p)" using inv by (simp add: word_less_nat_alt)
    then show ?thesis by simp
  next
    case False
    then have "?m = unat (c * b)" using inv by (simp add: word_less_nat_alt)
    then show ?thesis using False by simp
  qed
  from r RestReadCallback_step [of c b p] inv
  have p': "p' = \<lparr>pszData = drop ?m (pszData p), usLength = usLength p - of_nat ?m\<rparr>"
    by (auto simp: Let_def)
  show ?thesis
    using le um inv by (simp add: p' unat_sub)
qed

lemma read_calls_gen:
  assumes "unat (usLength p) = length (pszData p)"
    and "read_calls k c b p = (chunks, ns, p')"
  shows "concat chunks = take (k * unat (c * b)) (pszData p)
       \<and> pszData p' = drop (k * unat (c * b)) (pszData p)
       \<and> unat (usLength p') = length (pszData p')
       \<and> length chunks = k
       \<and> ns = map (\<lambda>ch. of_nat (length ch)) chunks
       \<and> (\<forall>i<k. length (chunks ! i)
             = min (length (pszData p) - i * unat (c * b)) (unat (c * b)))"
  using assms
proof (induction k arbitrary: p chunks ns p')
  case 0
  then show ?case by simp
next
  case (Suc k)
  let ?B = "unat (c * b)"
  let ?m = "min (length (pszData p)) ?B"
  obtain chunk q n where r: "RestReadCallback c b p = (chunk, q, n)"
    by (cases "RestReadCallback c b p") auto
  obtain chunks1 ns1 q1 where rc: "read_calls k c b q = (chunks1, ns1, q1)"
    by (cases "read_calls k c b q") auto
  from Suc.prems(2) r rc
  have eqs: "chunks = chunk # chunks1" "ns = n # ns1" "p' = q1"
    by auto
  from r RestReadCallback_step [of c b p] Suc.prems(1)
  have st: "chunk = take ?m (pszData p)" "pszData q = drop ?m (pszData p)" "n = of_nat ?m"
    by (auto simp: Let_def)
  have invq: "unat (usLength q) = length (pszData q)"
    by (rule RestReadCallback_inv [OF Suc.prems(1) r])
  note IH = Suc.IH [OF invq rc]
  have lch: "length chunk = ?m"
    by (simp add: st(1))
  have c1: "concat chunks = take (Suc k * ?B) (pszData p)"
  proof (cases "length (pszData p) \<le> ?B")
    case True
    then show ?thesis using IH by (simp add: eqs st min_def)
  next
    case False
    then have m: "?m = ?B" by simp
    have "take ?B (pszData p) @ take (k * ?B) (drop ?B (pszData p))
        = take (?B + k * ?B) (pszData p)"
      by (simp add: take_add)
    then show ?thesis using IH by (simp add: eqs st m)
  qed
  have c2: "pszData p' = drop (Suc k * ?B) (pszData p)"
  proof (cases "length (pszData p) \<le> ?B")
    case True
    then show ?thesis using IH by (simp add: eqs st min_def)
  next
    case False
    then have m: "?m = ?B" by simp
    show ?thesis using IH by (simp add: eqs st m add.commute)
  qed
  have c6: "\<forall>i<Suc k. length (chunks ! i) = min (length (pszData p) - i * ?B) ?B"
  proof (intro allI impI)
    fix i assume i: "i < Suc k"
    show "length (chunks ! i) = min (length (pszData p) - i * ?B) ?B"
    proof (cases i)
      case 0
      then show ?thesis by (simp add: eqs lch)
    next
      case (Suc j)
      then have "j < k" using i by simp
      with IH have "length (chunks1 ! j) = min (length (pszData q) - j * ?B) ?B"
        by blast
      moreover have "length (pszData q) - j * ?B = length (pszData p) - Suc j * ?B"
        by (cases "length (pszData p) \<le> ?B") (simp_all add: st min_def)
      ultimately show ?thesis by (simp add: eqs Suc)
    qed
  qed
  show ?case
    using c1 c2 c6 IH by (simp add: eqs st lch)
qed


lemma upload_view_inv:
  "length data < 2 ^ 64 \<Longrightarrow> unat (usLength (upload_view data)) = length (pszData (upload_view data))"
  by (simp add: upload_view_def unat_of_nat)

lemma ceil_div_covers:
  fixes L B :: nat
  assumes "0 < B"
  shows "L \<le> ((L + B - 1) div B) * B" and "i < (L + B - 1) div B \<Longrightarrow> i * B < L"
proof -
  let ?n = "(L + B - 1) div B"
  have "L + B - 1 = ?n * B + (L + B - 1) mod B"
    by simp
  moreover have "(L + B - 1) mod B < B"
    using assms by simp
  ultimately show "L \<le> ?n * B"
    by linarith
  show "i * B < L" if "i < ?n"
  proof -
    from that have "Suc i \<le> ?n" by simp
    then have "Suc i * B \<le> ?n * B" by (rule mult_le_mono1)
    also have "?n * B \<le> L + B - 1" by simp
    finally show ?thesis using assms by simp
  qed
qed

text \<open>
  Claim C9. Every call of \<open>RestReadCallback\<close> copies the smaller of the remaining length
  and the requested block size, takes that amount off the remaining length, advances
  the source pointer by it and returns it. For a buffer of \<open>L\<close> bytes and a block size
  \<open>B > 0\<close>, the first \<open>ceil(L/B)\<close> calls hand over the \<open>L\<close> bytes in order, each of them a
  non-empty chunk, and the call after them returns 0.
\<close>

theorem RestReadCallback_drains:
  assumes len: "length data < 2 ^ 64" and blk: "c * b \<noteq> 0"
  shows "RestReadCallback c b p =
           (let m = min (unat (usLength p)) (unat (c * b))
            in (take m (pszData p),
                \<lparr>pszData = drop m (pszData p), usLength = usLength p - of_nat m\<rparr>,
                of_nat m))
       \<and> (let B = unat (c * b); L = length data; n = (L + B - 1) div B
          in case read_calls n c b (upload_view data) of
               (chunks, ns, p') \<Rightarrow>
                  concat chunks = data \<and> length chunks = n
                \<and> ns = map (\<lambda>ch. of_nat (length ch)) chunks
                \<and> (\<forall>i<n. length (chunks ! i) = min (L - i * B) B \<and> 0 < length (chunks ! i))
                \<and> usLength p' = 0 \<and> pszData p' = []
                \<and> RestReadCallback c b p' = ([], p', 0))"
proof -
  let ?B = "unat (c * b)"
  let ?L = "length data"
  let ?n = "(?L + ?B - 1) div ?B"
  have B: "0 < ?B"
    using blk by (simp add: unat_gt_0)
  obtain chunks ns p' where rc: "read_calls ?n c b (upload_view data) = (chunks, ns, p')"
    by (cases "read_calls ?n c b (upload_view data)") auto
  note g = read_calls_gen [OF upload_view_inv [OF len] rc]
  have pd: "pszData (upload_view data) = data"
    by (simp add: upload_view_def)
  have cover: "?L \<le> ?n * ?B"
    by (rule ceil_div_covers(1) [OF B])
  have c1: "concat chunks = data"
    using g cover by (simp add: pd)
  have e: "pszData p' = []"
    using g cover by (simp add: pd)
  have "unat (usLength p') = 0"
    using g e by simp
  then have z: "usLength p' = 0"
    by (simp only: unat_0_iff)
  have each: "\<forall>i<?n. length (chunks ! i) = min (?L - i * ?B) ?B \<and> 0 < length (chunks ! i)"
  proof (intro allI impI)
    fix i assume i: "i < ?n"
    then have "i * ?B < ?L"
      by (rule ceil_div_covers(2) [OF B])
    moreover from g i have "length (chunks ! i) = min (?L - i * ?B) ?B"
      by (simp add: pd)
    ultimately show "length (chunks ! i) = min (?L - i * ?B) ?B \<and> 0 < length (chunks ! i)"
      using B by simp
  qed
  have after: "RestReadCallback c b p' = ([], p', 0)"
    using e z by (simp add: RestReadCallback_step [of c b p'] Let_def)
  have ns: "ns = map (\<lambda>ch. of_nat (length ch)) chunks" and lc: "length chunks = ?n"
    using g by simp_all
  show ?thesis
    unfolding Let_def rc prod.case
    using c1 e z each after ns lc RestReadCallback_step [of c b p, unfolded Let_def]
    by blast
qed

theorem RestReadCallback_drains_witness:
  "length ''hello'' < (2::nat) ^ 64 \<and> (1 :: size_t) * 2 \<noteq> 0
   \<and> read_calls 3 1 2 (upload_view ''hello'')
       = ([''he'', ''ll'', ''o''], [2, 2, 1], \<lparr>pszData = [], usLength = 0\<rparr>)
   \<and> concat [''he'', ''ll'', ''o''] = ''hello''
   \<and> RestReadCallback 1 2 \<lparr>pszData = [], usLength = 0\<rparr> = ([], \<lparr>pszData = [], usLength = 0\<rparr>, 0)"
proof -
  have h1: "length ''hello'' < (2::nat) ^ 64" by simp
  have h2: "(1 :: size_t) * 2 \<noteq> 0" by simp
  have n: "(length ''hello'' + unat (1 * 2 :: size_t) - 1) div unat (1 * 2 :: size_t) = 3"
    by simp
  have rc: "read_calls 3 1 2 (upload_view ''hello'')
       = ([''he'', ''ll'', ''o''], [2, 2, 1], \<lparr>pszData = [], usLength = 0\<rparr>)"
    by (simp add: numeral_3_eq_3 RestReadCallback_def upload_view_def Let_def)
  from RestReadCallback_drains [OF h1 h2, of "upload_view ''hello''"]
  have "concat [''he'', ''ll'', ''o''] = ''hello''
      \<and> RestReadCallback 1 2 \<lparr>pszData = [], usLength = 0\<rparr> = ([], \<lparr>pszData = [], usLength = 0\<rparr>, 0)"
    unfolding Let_def n rc by simp
  with h1 h2 rc show ?thesis
    by simp
qed

subsection \<open>The header callback\<close>

lemma find_first_of_None_iff: "find_first_of s '':'' = None \<longleftrightarrow> CHR '':'' \<notin> set s"
  by (induction s) auto

lemma find_first_of_Some_split:
  "find_first_of s '':'' = Some i \<Longrightarrow>
     take i s = takeWhile (\<lambda>c. c \<noteq> CHR '':'') s
   \<and> drop (i + 1) s = tl (dropWhile (\<lambda>c. c \<noteq> CHR '':'') s)"
proof (induction s arbitrary: i)
  case Nil
  then show ?case by simp
next
  case (Cons x xs)
  show ?case
  proof (cases "x = CHR '':''")
    case True
    with Cons.prems show ?thesis by simp
  next
    case False
    with Cons.prems obtain j where j: "find_first_of xs '':'' = Some j" "i = Suc j"
      by auto
    from Cons.IH [OF j(1)] False j(2) show ?thesis by simp
  qed
qed

text \<open>
  Claim C8. \<open>RestHeaderCallback\<close> on a delivered line: with a colon in the line, the
  trimmed text before the first colon is recorded with the trimmed text after it as its
  value, in place of any value the name had; with no colon and a line that is not
  blank after trimming, the trimmed line is recorded with the value \<open>present\<close>; a blank
  line leaves the response as it is. The callback returns the product of its two size
  arguments every time.
\<close>

theorem RestHeaderCallback_records:
  "(let line = take (unat (usBlockCount * usBlockSize)) pCurlData;
        name = takeWhile (\<lambda>c. c \<noteq> CHR '':'') line;
        remainder = tl (dropWhile (\<lambda>c. c \<noteq> CHR '':'') line);
        result = RestHeaderCallback pCurlData usBlockCount usBlockSize r
    in fst result = usBlockCount * usBlockSize
     \<and> (CHR '':'' \<in> set line \<longrightarrow>
          snd result = r\<lparr>mapHeaders := (mapHeaders r)(trimmed name \<mapsto> trimmed remainder)\<rparr>)
     \<and> (CHR '':'' \<notin> set line \<and> trimmed line \<noteq> [] \<longrightarrow>
          snd result = r\<lparr>mapHeaders := (mapHeaders r)(trimmed line \<mapsto> ''present'')\<rparr>)
     \<and> (CHR '':'' \<notin> set line \<and> trimmed line = [] \<longrightarrow> snd result = r))"
proof (cases "find_first_of (take (unat (usBlockCount * usBlockSize)) pCurlData) '':''")
  case None
  then have "CHR '':'' \<notin> set (take (unat (usBlockCount * usBlockSize)) pCurlData)"
    using find_first_of_None_iff [of "take (unat (usBlockCount * usBlockSize)) pCurlData"]
    by blast
  with None show ?thesis
    by (simp add: RestHeaderCallback_def Let_def TrimSpaces_trimmed)
next
  case (Some i)
  then have "CHR '':'' \<in> set (take (unat (usBlockCount * usBlockSize)) pCurlData)"
    using find_first_of_None_iff [of "take (unat (usBlockCount * usBlockSize)) pCurlData"]
    by simp
  with Some find_first_of_Some_split [OF Some] show ?thesis
    by (simp add: RestHeaderCallback_def Let_def TrimSpaces_trimmed)
qed

theorem RestHeaderCallback_records_witness:
  "RestHeaderCallback (''Connection: keep-alive'' @ [CHR 0x0D, CHR 0x0A]) 1 24
       (HttpResponse_new\<lparr>mapHeaders := [''Connection'' \<mapsto> ''close'']\<rparr>)
     = (24, HttpResponse_new\<lparr>mapHeaders := [''Connection'' \<mapsto> ''keep-alive'']\<rparr>)
   \<and> RestHeaderCallback ''HTTP/1.1 200 OK  '' 1 15 HttpResponse_new
     = (15, HttpResponse_new\<lparr>mapHeaders := [''HTTP/1.1 200 OK'' \<mapsto> ''present'']\<rparr>)
   \<and> RestHeaderCallback [CHR 0x0D, CHR 0x0A] 1 2 HttpResponse_new = (2, HttpResponse_new)"
proof -
  have a: "RestHeaderCallback (''Connection: keep-alive'' @ [CHR 0x0D, CHR 0x0A]) 1 24
       (HttpResponse_new\<lparr>mapHeaders := [''Connection'' \<mapsto> ''close'']\<rparr>)
     = (24, HttpResponse_new\<lparr>mapHeaders := [''Connection'' \<mapsto> ''keep-alive'']\<rparr>)"
    using RestHeaderCallback_records [of 1 24 "''Connection: keep-alive'' @ [CHR 0x0D, CHR 0x0A]"
        "HttpResponse_new\<lparr>mapHeaders := [''Connection'' \<mapsto> ''close'']\<rparr>"]
    by (simp add: Let_def trimmed_def isspace_def prod_eq_iff)
  have b: "RestHeaderCallback ''HTTP/1.1 200 OK  '' 1 15 HttpResponse_new
     = (15, HttpResponse_new\<lparr>mapHeaders := [''HTTP/1.1 200 OK'' \<mapsto> ''present'']\<rparr>)"
    using RestHeaderCallback_records [of 1 15 "''HTTP/1.1 200 OK  ''" HttpResponse_new]
    by (simp add: Let_def trimmed_def isspace_def prod_eq_iff HttpResponse_new_def)
  have c: "RestHeaderCallback [CHR 0x0D, CHR 0x0A] 1 2 HttpResponse_new = (2, HttpResponse_new)"
    using RestHeaderCallback_records [of 1 2 "[CHR 0x0D, CHR 0x0A]" HttpResponse_new]
    by (simp add: Let_def trimmed_def isspace_def prod_eq_iff HttpResponse_new_def)
  from a b c show ?thesis by simp
qed

subsection \<open>Performing a request\<close>

lemma free_headerlist_None [simp]: "m_pHeaderlist (this (free_headerlist w)) = None"
  by (simp add: free_headerlist_def split: option.splits)


lemma Perform_Some:
  "m_pCurlSession (this w) = Some h \<Longrightarrow>
   Perform lib ud w =
     (transfer_result lib,
      foldl (deliver (foldl curl_easy_setopt h
                (Perform_setopts lib (s_strCertificationAuthorityFile w) (this w))))
            ud (transfer_events lib),
      free_headerlist
        (w\<lparr>this := (this w)\<lparr>m_pCurlSession :=
               Some ((foldl curl_easy_setopt h
                        (Perform_setopts lib (s_strCertificationAuthorityFile w) (this w)))
                     \<lparr>response_code := transfer_status lib\<rparr>)\<rparr>,
           engine_calls := engine_calls w @ [Call_easy_perform]\<rparr>))"
  by (simp add: Perform_def curl_easy_perform_def Let_def)

lemma Perform_None:
  "m_pCurlSession (this w) = None \<Longrightarrow>
   Perform lib ud w = (CURLE_FAILED_INIT, ud, log_if_enabled LOG_ERROR_CURL_NOT_INIT_MSG w)"
  by (simp add: Perform_def)



lemma options_foldl_setopt:
  "options (foldl curl_easy_setopt h kvs) k =
     (case map_of (rev kvs) k of Some v \<Rightarrow> Some v | None \<Rightarrow> options h k)"
proof (induction kvs arbitrary: h)
  case Nil
  show ?case by simp
next
  case (Cons kv kvs)
  have "options (foldl curl_easy_setopt h (kv # kvs)) k =
          (case map_of (rev kvs) k of
             Some v \<Rightarrow> Some v | None \<Rightarrow> options (curl_easy_setopt h kv) k)"
    by (simp add: Cons.IH)
  also have "\<dots> = (case map_of (rev (kv # kvs)) k of Some v \<Rightarrow> Some v | None \<Rightarrow> options h k)"
    by (cases kv) (simp add: curl_easy_setopt_def map_add_def split: option.splits)
  finally show ?case .
qed

lemma Perform_setopts_no_VERIFYHOST:
  "map_of (rev (Perform_setopts lib ca c)) CURLOPT_SSL_VERIFYHOST = None"
  by (simp add: Perform_setopts_def map_add_def split: option.splits)

lemma Perform_setopts_VERIFYPEER:
  "m_bHTTPS c \<Longrightarrow>
   map_of (rev (Perform_setopts lib ca c)) CURLOPT_SSL_VERIFYPEER =
     Some (OLong (if uint (m_eSettingsFlags c) AND CURLOPT_SSL_VERIFYHOST_value lib \<noteq> 0
                  then 2 else 0))"
  by (simp add: Perform_setopts_def map_add_def split: option.splits)


text \<open>
  Claim C1, at an input where the code departs from it. The session is Active with
  HTTPS on and both \<open>VERIFY_PEER\<close> and \<open>VERIFY_HOST\<close> in the settings; \<open>curl.h\<close> gives
  \<open>CURLOPT_SSL_VERIFYHOST\<close> the value 81. After \<open>Perform\<close> the peer-verification option of
  the handle is 0 and the host-verification option was never set.
\<close>

theorem Perform_verification_failing_input:
  "Active world_https \<and> m_bHTTPS (this world_https)
   \<and> m_eSettingsFlags (this world_https) AND VERIFY_PEER \<noteq> 0
   \<and> m_eSettingsFlags (this world_https) AND VERIFY_HOST \<noteq> 0
   \<and> (case m_pCurlSession (this (snd (snd
          (Perform \<lparr>CURLOPT_SSL_VERIFYHOST_value = 81, transfer_events = [],
                    transfer_result = CURLE_OK, transfer_status = 200\<rparr>
                   (rest_objects HttpResponse_new UploadObject_new) world_https)))) of
         Some h \<Rightarrow> options h CURLOPT_SSL_VERIFYPEER = Some (OLong 0)
                 \<and> options h CURLOPT_SSL_VERIFYHOST = None
       | None \<Rightarrow> False)"
proof -
  have s: "m_pCurlSession (this world_https) = Some CURL_new"
    "m_bHTTPS (this world_https)"
    "m_eSettingsFlags (this world_https) = 6"
    by (simp_all add: world_https_def InitSession_def world_new_def CHTTPClient_new_def
        VERIFY_PEER_def VERIFY_HOST_def)
  have peer: "map_of (rev (Perform_setopts
        \<lparr>CURLOPT_SSL_VERIFYHOST_value = 81, transfer_events = [],
         transfer_result = CURLE_OK, transfer_status = 200\<rparr>
        (s_strCertificationAuthorityFile world_https) (this world_https)))
      CURLOPT_SSL_VERIFYPEER = Some (OLong 0)"
    by (simp add: Perform_setopts_VERIFYPEER s)
  show ?thesis
    by (simp add: Perform_Some [OF s(1)] options_foldl_setopt Perform_setopts_no_VERIFYHOST
        peer Active_def s VERIFY_PEER_def VERIFY_HOST_def CURL_new_def)
qed

subsection \<open>REST requests\<close>

lemma Active_setopts [simp]: "Active (setopts kvs w) = Active w"
  by (simp add: setopts_def Active_def)

lemma Active_easy_reset [simp]: "Active (easy_reset w) = Active w"
  by (simp add: easy_reset_def Active_def)

lemma CheckURL_session [simp]: "m_pCurlSession (CheckURL strURL c) = m_pCurlSession c"
  by (simp add: CheckURL_def Let_def)

lemma AddHeader_foldl_session [simp]:
  "m_pCurlSession (foldl (\<lambda>c kv. AddHeader (g kv) c) c0 Headers) = m_pCurlSession c0"
  by (induction Headers arbitrary: c0) (simp_all add: AddHeader_def)

lemma Active_this_update:
  "Active (w\<lparr>this := c\<rparr>) = (m_pCurlSession c \<noteq> None)"
  by (simp add: Active_def)

lemma session_easy_reset [simp]:
  "m_pCurlSession (this (easy_reset w)) = map_option curl_easy_reset (m_pCurlSession (this w))"
  by (simp add: easy_reset_def)

lemma session_setopts [simp]:
  "m_pCurlSession (this (setopts kvs w))
     = map_option (\<lambda>h. foldl curl_easy_setopt h kvs) (m_pCurlSession (this w))"
  by (simp add: setopts_def)



text \<open>\<open>static_cast<int>\<close> keeps every \<open>long\<close> that fits an \<open>int\<close>, so every HTTP status.\<close>

lemma static_cast_int_exact:
  fixes x :: long
  assumes "- (2 ^ 31) \<le> sint x" and "sint x < 2 ^ 31"
  shows "sint (ucast x :: cint) = sint x"
proof -
  have "sint (ucast x :: cint) = signed_take_bit 31 (sint x)"
    by (simp add: signed_ucast_eq signed_take_bit_eq_iff_take_bit_eq take_bit_signed_take_bit sint_uint unsigned_ucast_eq)
  also have "\<dots> = sint x"
    using assms by (simp add: signed_take_bit_int_eq_self)
  finally show ?thesis .
qed



subsection \<open>Downloading a file\<close>

lemma CheckURL_flags [simp]: "m_eSettingsFlags (CheckURL strURL c) = m_eSettingsFlags c"
  by (simp add: CheckURL_def Let_def)

lemma DownloadFile_unopenable:
  assumes "strURL \<noteq> []" and "strLocalFile \<noteq> []" and "Active w"
    and "\<not> writable w strLocalFile"
  shows "fst (DownloadFile strLocalFile strURL lHTTPStatusCode lib w)
           = (m_eSettingsFlags (this w) AND ENABLE_LOG = 0)
       \<and> engine_calls (snd (snd (DownloadFile strLocalFile strURL lHTTPStatusCode lib w)))
           = engine_calls w @ [Call_easy_reset]"
proof -
  from assms(3) obtain h where h: "m_pCurlSession (this w) = Some h"
    by (auto simp: Active_def)
  show ?thesis
    using assms(1,2,4) h
    by (simp add: DownloadFile_def Let_def easy_reset_def)
qed

text \<open>
  Claim C7, at an input where the code departs from it. The session is Active with
  logging off and the local file cannot be opened for writing. \<open>DownloadFile\<close> performs
  no transfer, but it returns true.
\<close>

theorem DownloadFile_unopenable_failing_input:
  "Active world_readonly \<and> \<not> writable world_readonly ''out.bin''
   \<and> fst (DownloadFile ''out.bin'' ''http://example.com/file'' 0
        \<lparr>CURLOPT_SSL_VERIFYHOST_value = 81, transfer_events = [],
         transfer_result = CURLE_OK, transfer_status = 200\<rparr> world_readonly) = True
   \<and> Call_easy_perform \<notin> set (engine_calls (snd (snd
        (DownloadFile ''out.bin'' ''http://example.com/file'' 0
          \<lparr>CURLOPT_SSL_VERIFYHOST_value = 81, transfer_events = [],
           transfer_result = CURLE_OK, transfer_status = 200\<rparr> world_readonly))))"
proof -
  have a: "Active world_readonly" and nw: "\<not> writable world_readonly ''out.bin''"
    and f: "m_eSettingsFlags (this world_readonly) = 0"
    and e: "engine_calls world_readonly = [Call_easy_init]"
    by (simp_all add: world_readonly_def InitSession_def world_new_def CHTTPClient_new_def
        Active_def NO_FLAGS_def)
  have u: "''http://example.com/file'' \<noteq> []" and l: "''out.bin'' \<noteq> []"
    by simp_all
  from DownloadFile_unopenable [OF u l a nw] a nw show ?thesis
    by (simp add: f e)
qed


end
